theory Spec2Isabelle
  imports Complex_Main "HOL-Library.Signed_Division"
begin

section \<open>The signal viewport of sigviewport.cpp\<close>

text \<open>
  The viewport maps a time axis onto pixels with a scale (seconds per pixel) and an
  offset (the time at the left edge of the plot area), zooms about an anchor pixel, pans
  by dragging, and paints a ruler of major and minor ticks.

  The arithmetic of \<open>paint_ruler\<close> is modelled with its rounding: every \<open>double\<close> operation
  rounds its exact result to 53 significant bits, the conversion to \<open>float\<close> and
  \<open>log10f\<close> round to 24, to nearest with ties to even (\<open>rnd\<close>). The choice of the tick
  period compares rounded numbers, and the tick loop adds a small period to a large
  time, so both depend on the rounding. The exponent range is not modelled (no overflow
  to infinity, no subnormal numbers, no NaN), and the library functions \<open>log10f\<close> and
  \<open>pow\<close> are taken to return the nearest number of their type.

  The zoom and pan handlers are modelled in exact real arithmetic: what is proved of them
  holds of the program up to the rounding of a few operations.

  The C++ \<open>int\<close> values are modelled as \<^typ>\<open>int\<close>; integer division and remainder
  truncate towards zero as in C++ (\<open>sdiv\<close>, \<open>smod\<close>), and the overflow of the loop
  counter, undefined in C++, is an error of its own.
\<close>

subsection \<open>Constants\<close>

definition MaxScale :: real where
  "MaxScale = 10 ^ 9"

definition MinScale :: real where
  "MinScale = 1 / 10 ^ 15"

definition SignalHeight :: int where
  "SignalHeight = 50"

definition LabelMarginWidth :: int where
  "LabelMarginWidth = 70"

definition RulerHeight :: int where
  "RulerHeight = 30"

definition MinorTickSubdivision :: int where
  "MinorTickSubdivision = 4"

definition ScaleUnits :: "int list" where
  "ScaleUnits = [1, 2, 5]"

text \<open>The fourth prefix is the Greek letter mu (U+03BC), here as its two UTF-8 bytes.\<close>

definition SIPrefixes :: "string list" where
  "SIPrefixes = [''f'', ''p'', ''n'', [char_of (206::nat), char_of (188::nat)],
     ''m'', '''', ''k'', ''M'', ''G'']"

definition FirstSIPrefixPower :: int where
  "FirstSIPrefixPower = - 15"

text \<open>The local constant \<open>MinSpacing\<close> of \<open>paint_ruler\<close>.\<close>

definition MinSpacing :: real where
  "MinSpacing = 80"

subsection \<open>State and events\<close>

text \<open>
  The fields of the widget that the event handlers read and write. The width of the
  widget belongs to the toolkit and is passed to the operations that read it.
\<close>

record SigViewport =
  scale :: real
  offset :: real
  mouse_down_point :: "int \<times> int"
  mouse_down_offset :: real

datatype MouseButton = LeftButton | RightButton | MidButton

record QMouseEvent =
  buttons :: "MouseButton set"
  pos :: "int \<times> int"

record QWheelEvent =
  delta :: int
  wheel_x :: int

text \<open>
  The constructor: one microsecond per pixel, offset zero. The press point is a default
  \<open>QPoint\<close>, the origin; \<open>_mouse_down_offset\<close> is left uninitialised, so the value it
  happens to hold is a parameter.
\<close>

definition init_viewport :: "real \<Rightarrow> SigViewport" where
  "init_viewport garbage = \<lparr>scale = 1 / 10 ^ 6, offset = 0, mouse_down_point = (0, 0),
     mouse_down_offset = garbage\<rparr>"

subsection \<open>Zoom and pan\<close>

text \<open>
  \<open>zoom(double steps, int offset)\<close>: the time under the anchor is read first, the scale
  is multiplied by \<open>pow(3.0/2.0, -steps)\<close> and clamped, and the offset is recomputed.
  The call of \<open>update()\<close> asks the toolkit for a repaint and touches no field.
\<close>

definition zoom :: "real \<Rightarrow> int \<Rightarrow> SigViewport \<Rightarrow> SigViewport" where
  "zoom steps off st =
     (let cursor_offset = offset st + scale st * real_of_int off;
          scale1 = scale st * (3 / 2) powr (- steps);
          scale2 = max (min scale1 MaxScale) MinScale
      in st\<lparr>scale := scale2, offset := cursor_offset - scale2 * real_of_int off\<rparr>)"

text \<open>\<open>zoom(double steps)\<close> anchors at the middle of the plot area of a widget of width \<open>w\<close>.\<close>

definition zoom_centre :: "real \<Rightarrow> int \<Rightarrow> SigViewport \<Rightarrow> SigViewport" where
  "zoom_centre steps w st = zoom steps ((w - LabelMarginWidth) sdiv 2) st"

definition wheelEvent :: "QWheelEvent \<Rightarrow> SigViewport \<Rightarrow> SigViewport" where
  "wheelEvent event st =
     zoom (real_of_int (delta event sdiv 120)) (wheel_x event - LabelMarginWidth) st"

definition mousePressEvent :: "QMouseEvent \<Rightarrow> SigViewport \<Rightarrow> SigViewport" where
  "mousePressEvent event st =
     st\<lparr>mouse_down_point := pos event, mouse_down_offset := offset st\<rparr>"

definition mouseMoveEvent :: "QMouseEvent \<Rightarrow> SigViewport \<Rightarrow> SigViewport" where
  "mouseMoveEvent event st =
     (if LeftButton \<in> buttons event
      then st\<lparr>offset := mouse_down_offset st
             + real_of_int (fst (mouse_down_point st) - fst (pos event)) * scale st\<rparr>
      else st)"

definition mouseReleaseEvent :: "QMouseEvent \<Rightarrow> SigViewport \<Rightarrow> SigViewport" where
  "mouseReleaseEvent event st = st"

subsection \<open>Rounding\<close>

text \<open>Rounding to the nearest integer, a tie going to the even one.\<close>

definition round_even :: "real \<Rightarrow> int" where
  "round_even y =
     (let f = \<lfloor>y\<rfloor>; d = y - real_of_int f
      in if d < 1 / 2 then f else if 1 / 2 < d then f + 1
         else if even f then f else f + 1)"

text \<open>
  Rounding to \<open>p\<close> significant bits: with \<open>2 ^ e \<le> \<bar>x\<bar> < 2 ^ (e + 1)\<close> the numbers of
  that precision around \<open>x\<close> are the multiples of \<open>2 ^ (e - p + 1)\<close>.
\<close>

definition rnd :: "nat \<Rightarrow> real \<Rightarrow> real" where
  "rnd p x =
     (if x = 0 then 0
      else let e = \<lfloor>log 2 \<bar>x\<bar>\<rfloor>; u = 2 powi (e - int p + 1)
           in real_of_int (round_even (x / u)) * u)"

text \<open>The result of a \<open>double\<close> operation, and of a conversion to \<open>float\<close>.\<close>

definition dbl :: "real \<Rightarrow> real" where
  "dbl x = rnd 53 x"

definition single :: "real \<Rightarrow> real" where
  "single x = rnd 24 x"

text \<open>\<open>log10f\<close> of the C library, taken to return the nearest \<open>float\<close>.\<close>

definition log10f :: "real \<Rightarrow> real" where
  "log10f y = single (log 10 y)"

text \<open>C's \<open>round\<close>: halves go away from zero.\<close>

definition c_round :: "real \<Rightarrow> int" where
  "c_round x = (if 0 \<le> x then \<lfloor>x + 1 / 2\<rfloor> else \<lceil>x - 1 / 2\<rceil>)"

definition INT_MAX :: int where
  "INT_MAX = 2 ^ 31 - 1"

subsection \<open>The ruler\<close>

text \<open>\<open>min_period = _scale * MinSpacing\<close>\<close>

definition min_period_of :: "SigViewport \<Rightarrow> real" where
  "min_period_of st = dbl (scale st * MinSpacing)"

text \<open>
  \<open>(int)floorf(log10f(min_period))\<close>: the \<open>double\<close> is converted to \<open>float\<close>, the
  logarithm is a \<open>float\<close>, and its floor is taken.
\<close>

definition order_of :: "SigViewport \<Rightarrow> int" where
  "order_of st = \<lfloor>log10f (single (min_period_of st))\<rfloor>"

text \<open>\<open>pow(10, order)\<close>\<close>

definition order_decimal_of :: "SigViewport \<Rightarrow> real" where
  "order_decimal_of st = dbl (10 powi order_of st)"

text \<open>
  The \<open>do ... while\<close> loop over \<open>ScaleUnits\<close>: the body runs, \<open>unit\<close> is incremented, and
  the loop goes on while the period is too small and a unit is left.
\<close>

function unit_loop :: "real \<Rightarrow> real \<Rightarrow> nat \<Rightarrow> real" where
  "unit_loop order_decimal min_period unit =
     (let tick_period = dbl (order_decimal * real_of_int (ScaleUnits ! unit));
          unit' = unit + 1
      in if tick_period < min_period \<and> unit' < length ScaleUnits
         then unit_loop order_decimal min_period unit'
         else tick_period)"
  by pat_completeness auto
termination
  by (relation "measure (\<lambda>(od, mp, u). length ScaleUnits - u)") auto

declare unit_loop.simps [simp del]

definition tick_period_of :: "SigViewport \<Rightarrow> real" where
  "tick_period_of st = unit_loop (order_decimal_of st) (min_period_of st) 0"

definition prefix_of :: "SigViewport \<Rightarrow> int" where
  "prefix_of st = (order_of st - FirstSIPrefixPower) sdiv 3"

text \<open>
  What the painter draws for one division: the pixel \<open>x\<close> that it hands to \<open>drawLine\<close> and
  \<open>drawText\<close>, the time, the division, whether the tick is a major one, and for a major
  tick the number and the unit of its label.
\<close>

record tick =
  tick_x :: real
  tick_t :: real
  tick_division :: int
  tick_major :: bool
  tick_label :: "(real \<times> string) option"

datatype error = AssertionFailed | SignedOverflow

text \<open>
  The body of the tick loop below its \<open>break\<close>: a major tick with its label when the
  division is a multiple of \<open>MinorTickSubdivision\<close>, a minor tick otherwise. The
  label is the number \<open>t / order_decimal\<close> followed by the prefix and \<open>s\<close>.
\<close>

definition draw_tick :: "real \<Rightarrow> real \<Rightarrow> int \<Rightarrow> real \<Rightarrow> int \<Rightarrow> tick" where
  "draw_tick x t division order_decimal prefix =
     (if division smod MinorTickSubdivision = 0
      then \<lparr>tick_x = x, tick_t = t, tick_division = division, tick_major = True,
             tick_label = Some (dbl (t / order_decimal), SIPrefixes ! nat prefix @ ''s'')\<rparr>
      else \<lparr>tick_x = x, tick_t = t, tick_division = division, tick_major = False,
             tick_label = None\<rparr>)"

text \<open>Line 220, the time of a division, and line 221, the pixel of a time.\<close>

definition tick_time :: "real \<Rightarrow> real \<Rightarrow> int \<Rightarrow> real" where
  "tick_time t0 minor_tick_period division =
     dbl (t0 + dbl (real_of_int division * minor_tick_period))"

definition time_to_pixel :: "SigViewport \<Rightarrow> real \<Rightarrow> real" where
  "time_to_pixel st t =
     dbl (dbl (dbl (t - offset st) / scale st) + real_of_int LabelMarginWidth)"


text \<open>
  The \<open>while(1)\<close> loop of \<open>paint_ruler\<close>. It leaves by \<open>break\<close>. The counter \<open>division\<close>
  is an \<open>int\<close>: incrementing it at \<open>INT_MAX\<close> is undefined in C++, here the error
  \<open>SignedOverflow\<close>, which also bounds the recursion.
\<close>

function tick_loop ::
  "SigViewport \<Rightarrow> int \<Rightarrow> real \<Rightarrow> real \<Rightarrow> real \<Rightarrow> int \<Rightarrow> int \<Rightarrow> error + tick list" where
  "tick_loop st w t0 minor_tick_period order_decimal prefix division =
     (let t = tick_time t0 minor_tick_period division;
          x = time_to_pixel st t
      in if x \<ge> real_of_int w then Inr []
         else if INT_MAX \<le> division then Inl SignedOverflow
         else (case tick_loop st w t0 minor_tick_period order_decimal prefix (division + 1) of
                 Inl e \<Rightarrow> Inl e
               | Inr rest \<Rightarrow> Inr (draw_tick x t division order_decimal prefix # rest)))"
  by pat_completeness auto
termination
  by (relation "measure (\<lambda>(st, w, t0, m, od, p, d). nat (INT_MAX - d))") auto

declare tick_loop.simps [simp del]

text \<open>Lines 211 to 217: the periods, the first divisions and the first time.\<close>

definition minor_tick_period_of :: "SigViewport \<Rightarrow> real" where
  "minor_tick_period_of st = dbl (tick_period_of st / real_of_int MinorTickSubdivision)"

definition first_major_division_of :: "SigViewport \<Rightarrow> real" where
  "first_major_division_of st = real_of_int \<lfloor>dbl (offset st / tick_period_of st)\<rfloor>"

definition first_minor_division_of :: "SigViewport \<Rightarrow> real" where
  "first_minor_division_of st = real_of_int \<lceil>dbl (offset st / minor_tick_period_of st)\<rceil>"

definition t0_of :: "SigViewport \<Rightarrow> real" where
  "t0_of st = dbl (first_major_division_of st * tick_period_of st)"

definition first_division_of :: "SigViewport \<Rightarrow> int" where
  "first_division_of st =
     c_round (dbl (first_minor_division_of st
       - dbl (first_major_division_of st * real_of_int MinorTickSubdivision)))"

text \<open>
  Lines 211 to 243: the ticks drawn in a widget of width \<open>w\<close>. In \<open>paint_ruler\<close> this part
  runs after the two assertions, which keep the prefix inside \<open>SIPrefixes\<close>.
\<close>

definition ruler_ticks :: "SigViewport \<Rightarrow> int \<Rightarrow> error + tick list" where
  "ruler_ticks st w =
     tick_loop st w (t0_of st) (minor_tick_period_of st) (order_decimal_of st)
       (prefix_of st) (first_division_of st)"

text \<open>\<open>paint_ruler\<close> in a widget of width \<open>w\<close>: the two assertions on the prefix, then the ticks.\<close>

definition paint_ruler :: "SigViewport \<Rightarrow> int \<Rightarrow> error + tick list" where
  "paint_ruler st w =
     (let prefix = prefix_of st
      in if \<not> prefix \<ge> 0 then Inl AssertionFailed
         else if \<not> prefix < int (length SIPrefixes) then Inl AssertionFailed
         else ruler_ticks st w)"

subsection \<open>Notions used to state the properties\<close>

text \<open>A sequence of zoom calls, each with its step count and its anchor.\<close>

fun zooms :: "(real \<times> int) list \<Rightarrow> SigViewport \<Rightarrow> SigViewport" where
  "zooms [] st = st"
| "zooms (z # zs) st = zooms zs (zoom (fst z) (snd z) st)"

text \<open>Viewports to run the painter on.\<close>

definition half_second_view :: SigViewport where
  "half_second_view = (init_viewport 0)\<lparr>scale := 1 / 2, offset := 30\<rparr>"


text \<open>
  Viewports whose offset is large against their scale. The scale is a \<open>double\<close>:
  \<open>dbl MinScale\<close> is the value of the constant \<open>MinScale = 1e-15\<close>, at which the zoom
  clamps.
\<close>

definition min_scale_view :: "real \<Rightarrow> SigViewport" where
  "min_scale_view off = (init_viewport 0)\<lparr>scale := dbl MinScale, offset := off\<rparr>"


definition far_view :: SigViewport where
  "far_view = min_scale_view (10 ^ 12)"

definition picosecond_view :: SigViewport where
  "picosecond_view = (init_viewport 0)\<lparr>scale := dbl (1 / 10 ^ 12), offset := 2000001 / 2\<rparr>"

section \<open>Zoom and pan\<close>

lemma zoom_scale:
  "scale (zoom steps off st) = max (min (scale st * (3 / 2) powr (- steps)) MaxScale) MinScale"
  by (simp add: zoom_def Let_def)

lemma zoom_offset:
  "offset (zoom steps off st)
     = offset st + scale st * real_of_int off - scale (zoom steps off st) * real_of_int off"
  by (simp add: zoom_def Let_def)

text \<open>
  C1. Zoom anchor invariance: after \<open>zoom steps anchor\<close> the time under the anchor pixel,
  \<open>offset + scale * anchor\<close>, is the one it was before, for every scale, offset, anchor
  and step count, clamped or not.
\<close>

theorem zoom_anchor_invariance:
  "offset (zoom steps anchor st) + scale (zoom steps anchor st) * real_of_int anchor
     = offset st + scale st * real_of_int anchor"
  by (simp add: zoom_offset)

text \<open>
  C10. Pan preserves scale: a move event leaves the scale and the recorded press point
  and press offset as they are; with the left button held the offset becomes
  \<open>mouse_down_offset + (mouse_down_x - x) * scale\<close>, and without it nothing changes.
\<close>

theorem pan_preserves_scale:
  "scale (mouseMoveEvent event st) = scale st
   \<and> mouse_down_point (mouseMoveEvent event st) = mouse_down_point st
   \<and> mouse_down_offset (mouseMoveEvent event st) = mouse_down_offset st
   \<and> (LeftButton \<in> buttons event \<longrightarrow>
        offset (mouseMoveEvent event st)
          = mouse_down_offset st
            + real_of_int (fst (mouse_down_point st) - fst (pos event)) * scale st)
   \<and> (LeftButton \<notin> buttons event \<longrightarrow> mouseMoveEvent event st = st)"
  by (simp add: mouseMoveEvent_def)

theorem pan_preserves_scale_witness:
  "LeftButton \<in> buttons \<lparr>buttons = {LeftButton}, pos = (110, 20)\<rparr>
   \<and> scale (mouseMoveEvent \<lparr>buttons = {LeftButton}, pos = (110, 20)\<rparr>
        (mousePressEvent \<lparr>buttons = {LeftButton}, pos = (100, 20)\<rparr> (init_viewport 0)))
       = 1 / 10 ^ 6
   \<and> offset (mouseMoveEvent \<lparr>buttons = {LeftButton}, pos = (110, 20)\<rparr>
        (mousePressEvent \<lparr>buttons = {LeftButton}, pos = (100, 20)\<rparr> (init_viewport 0)))
       = - 1 / 10 ^ 5
   \<and> LeftButton \<notin> buttons \<lparr>buttons = {}, pos = (110, 20)\<rparr>
   \<and> mouseMoveEvent \<lparr>buttons = {}, pos = (110, 20)\<rparr> (init_viewport 0) = (init_viewport 0)"
  using pan_preserves_scale [of "\<lparr>buttons = {LeftButton}, pos = (110, 20)\<rparr>"
      "mousePressEvent \<lparr>buttons = {LeftButton}, pos = (100, 20)\<rparr> (init_viewport 0)"]
    pan_preserves_scale [of "\<lparr>buttons = {}, pos = (110, 20)\<rparr>" "init_viewport 0"]
  by (simp add: mousePressEvent_def init_viewport_def)

subsection \<open>The bounds of the scale\<close>

lemma zoom_in_range:
  "MinScale \<le> scale (zoom steps off st)" "scale (zoom steps off st) \<le> MaxScale"
  by (simp_all add: zoom_scale MinScale_def MaxScale_def)

lemma zoom_in_scale:
  assumes "MinScale \<le> scale st" "scale st \<le> MaxScale" "0 \<le> steps"
  shows "scale (zoom steps off st) = max (scale st * (3 / 2) powr (- steps)) MinScale"
proof -
  have "(3 / 2 :: real) powr (- steps) \<le> 1"
    using powr_mono [of "- steps" 0 "3 / 2 :: real"] assms(3) by simp
  moreover have "0 < scale st" using assms(1) by (simp add: MinScale_def)
  ultimately have "scale st * (3 / 2) powr (- steps) \<le> scale st"
    by (simp add: mult_left_le)
  then have "scale st * (3 / 2) powr (- steps) \<le> MaxScale" using assms(2) by linarith
  then show ?thesis by (simp add: zoom_scale)
qed

lemma zoom_out_scale:
  assumes "MinScale \<le> scale st" "scale st \<le> MaxScale" "steps \<le> 0"
  shows "scale (zoom steps off st) = min (scale st * (3 / 2) powr (- steps)) MaxScale"
proof -
  have "1 \<le> (3 / 2 :: real) powr (- steps)"
    using assms(3) by (simp add: ge_one_powr_ge_zero)
  moreover have "0 < scale st" using assms(1) by (simp add: MinScale_def)
  ultimately have "scale st \<le> scale st * (3 / 2) powr (- steps)"
    by simp
  then have "MinScale \<le> scale st * (3 / 2) powr (- steps)" using assms(1) by linarith
  moreover have "MinScale \<le> MaxScale" by (simp add: MinScale_def MaxScale_def)
  ultimately show ?thesis by (simp add: zoom_scale)
qed

lemma max_clamp_absorb:
  fixes x m r :: real
  assumes "0 < r" "r \<le> 1" "0 < m"
  shows "max (max x m * r) m = max (x * r) m"
proof (cases "x \<le> m")
  case True
  have 1: "m * r \<le> m" using assms by (simp add: mult_left_le)
  have "x * r \<le> m * r" using True assms(1) by simp
  with 1 have 2: "x * r \<le> m" by linarith
  show ?thesis using True 1 2 by (simp only: max_absorb2)
next
  case False
  then show ?thesis by (simp add: max_def)
qed

lemma min_clamp_absorb:
  fixes x m r :: real
  assumes "1 \<le> r" "0 < m"
  shows "min (min x m * r) m = min (x * r) m"
proof (cases "m \<le> x")
  case True
  have 1: "m \<le> m * r" using assms by simp
  have "m * r \<le> x * r" using True assms(1) by simp
  with 1 have 2: "m \<le> x * r" by linarith
  show ?thesis using True 1 2 by (simp only: min_absorb2)
next
  case False
  then show ?thesis by (simp add: min_def)
qed

lemma zooms_in_range:
  assumes "MinScale \<le> scale st" "scale st \<le> MaxScale"
  shows "MinScale \<le> scale (zooms zs st) \<and> scale (zooms zs st) \<le> MaxScale"
  using assms by (induction zs arbitrary: st) (simp_all add: zoom_in_range)

lemma zooms_in_scale:
  assumes "MinScale \<le> scale st" "scale st \<le> MaxScale" "\<forall>z \<in> set zs. 0 \<le> fst z"
  shows "scale (zooms zs st)
     = max (scale st * (3 / 2) powr (- sum_list (map fst zs))) MinScale"
  using assms
proof (induction zs arbitrary: st)
  case Nil
  then show ?case by simp
next
  case (Cons z zs)
  let ?st = "zoom (fst z) (snd z) st"
  let ?r = "(3 / 2 :: real) powr (- fst z)"
  let ?R = "(3 / 2 :: real) powr (- sum_list (map fst zs))"
  have z: "0 \<le> fst z" and zs: "\<forall>z \<in> set zs. 0 \<le> fst z"
    using Cons.prems(3) by simp_all
  have "0 \<le> sum_list (map fst zs)" using zs by (auto intro!: sum_list_nonneg)
  then have R: "0 < ?R" "?R \<le> 1"
    using powr_mono [of "- sum_list (map fst zs)" 0 "3 / 2 :: real"] by simp_all
  have "scale (zooms (z # zs) st) = scale (zooms zs ?st)" by simp
  also have "\<dots> = max (scale ?st * ?R) MinScale"
    using zoom_in_range [of "fst z" "snd z" st] zs by (intro Cons.IH) simp_all
  also have "scale ?st = max (scale st * ?r) MinScale"
    using Cons.prems(1,2) z by (rule zoom_in_scale)
  also have "max (max (scale st * ?r) MinScale * ?R) MinScale
      = max (scale st * ?r * ?R) MinScale"
    using R by (intro max_clamp_absorb) (simp_all add: MinScale_def)
  also have "scale st * ?r * ?R
      = scale st * (3 / 2) powr (- sum_list (map fst (z # zs)))"
    by (simp add: powr_add [symmetric])
  finally show ?case .
qed

lemma zooms_out_scale:
  assumes "MinScale \<le> scale st" "scale st \<le> MaxScale" "\<forall>z \<in> set zs. fst z \<le> 0"
  shows "scale (zooms zs st)
     = min (scale st * (3 / 2) powr (- sum_list (map fst zs))) MaxScale"
  using assms
proof (induction zs arbitrary: st)
  case Nil
  then show ?case by simp
next
  case (Cons z zs)
  let ?st = "zoom (fst z) (snd z) st"
  let ?r = "(3 / 2 :: real) powr (- fst z)"
  let ?R = "(3 / 2 :: real) powr (- sum_list (map fst zs))"
  have z: "fst z \<le> 0" and zs: "\<forall>z \<in> set zs. fst z \<le> 0"
    using Cons.prems(3) by simp_all
  have "sum_list (map fst zs) \<le> 0" using zs by (auto intro!: sum_list_nonpos)
  then have R: "1 \<le> ?R"
    by (simp add: ge_one_powr_ge_zero)
  have "scale (zooms (z # zs) st) = scale (zooms zs ?st)" by simp
  also have "\<dots> = min (scale ?st * ?R) MaxScale"
    using zoom_in_range [of "fst z" "snd z" st] zs by (intro Cons.IH) simp_all
  also have "scale ?st = min (scale st * ?r) MaxScale"
    using Cons.prems(1,2) z by (rule zoom_out_scale)
  also have "min (min (scale st * ?r) MaxScale * ?R) MaxScale
      = min (scale st * ?r * ?R) MaxScale"
    using R by (intro min_clamp_absorb) (simp_all add: MaxScale_def)
  also have "scale st * ?r * ?R
      = scale st * (3 / 2) powr (- sum_list (map fst (z # zs)))"
    by (simp add: powr_add [symmetric])
  finally show ?case .
qed

lemma pow_137: "(10 :: real) ^ 24 \<le> (3 / 2) ^ 137"
  by (simp add: power_divide)

lemma powr_137: "(10 :: real) ^ 24 \<le> (3 / 2) powr 137"
proof -
  have "(3 / 2 :: real) powr 137 = (3 / 2) ^ 137"
    by (rule powr_numeral) simp
  then show ?thesis using pow_137 by simp
qed

lemma zoom_in_floor:
  assumes "MinScale \<le> scale st" "scale st \<le> MaxScale" "137 \<le> s"
  shows "scale st * (3 / 2) powr (- s) \<le> MinScale"
proof -
  have pos: "0 < scale st" using assms(1) by (simp add: MinScale_def)
  have "(3 / 2 :: real) powr 137 \<le> (3 / 2) powr s"
    using assms(3) by (intro powr_mono) simp_all
  then have big: "(10 :: real) ^ 24 \<le> (3 / 2) powr s"
    using powr_137 by linarith
  have "scale st * 1 \<le> 10 ^ 9 * 1" using assms(2) by (simp add: MaxScale_def)
  also have "(10 :: real) ^ 9 * 1 = (1 / 10 ^ 15) * 10 ^ 24" by simp
  also have "\<dots> \<le> (1 / 10 ^ 15) * (3 / 2) powr s"
    using big by (intro mult_left_mono) simp_all
  finally have "scale st \<le> MinScale * (3 / 2) powr s" by (simp add: MinScale_def)
  then have "scale st / (3 / 2) powr s \<le> MinScale"
    by (simp add: pos_divide_le_eq)
  then show ?thesis by (simp add: powr_minus_divide)
qed

lemma zoom_out_ceiling:
  assumes "MinScale \<le> scale st" "scale st \<le> MaxScale" "s \<le> - 137"
  shows "MaxScale \<le> scale st * (3 / 2) powr (- s)"
proof -
  have "(3 / 2 :: real) powr 137 \<le> (3 / 2) powr (- s)"
    using assms(3) by (intro powr_mono) simp_all
  then have big: "(10 :: real) ^ 24 \<le> (3 / 2) powr (- s)"
    using powr_137 by linarith
  have "MaxScale = (1 / 10 ^ 15) * 10 ^ 24" by (simp add: MaxScale_def)
  also have "\<dots> \<le> (1 / 10 ^ 15) * (3 / 2) powr (- s)"
    using big by (intro mult_left_mono) simp_all
  also have "\<dots> \<le> scale st * (3 / 2) powr (- s)"
    using assms(1) by (intro mult_right_mono) (simp_all add: MinScale_def)
  finally show ?thesis .
qed

text \<open>
  C5. Scale bounds and exact clamping: from a scale between \<open>MinScale\<close> and \<open>MaxScale\<close>,
  every zoom (with an anchor, centred, or from the wheel), every pan and every sequence
  of zooms leaves the scale between the two bounds. A sequence of zooms whose steps are
  all positive or zero and add up to 137 or more ends at exactly \<open>MinScale\<close>, and one whose
  steps are all negative or zero and add up to -137 or less ends at exactly \<open>MaxScale\<close>:
  137 steps of a factor 3/2 span the 24 orders of magnitude between the bounds.
\<close>

theorem scale_bounds_and_clamping:
  assumes "MinScale \<le> scale st" "scale st \<le> MaxScale"
  shows "MinScale \<le> scale (zoom steps off st) \<and> scale (zoom steps off st) \<le> MaxScale
     \<and> MinScale \<le> scale (zoom_centre steps w st) \<and> scale (zoom_centre steps w st) \<le> MaxScale
     \<and> MinScale \<le> scale (wheelEvent wheel st) \<and> scale (wheelEvent wheel st) \<le> MaxScale
     \<and> MinScale \<le> scale (mouseMoveEvent move st) \<and> scale (mouseMoveEvent move st) \<le> MaxScale
     \<and> MinScale \<le> scale (zooms zs st) \<and> scale (zooms zs st) \<le> MaxScale
     \<and> ((\<forall>z \<in> set zs. 0 \<le> fst z) \<and> 137 \<le> sum_list (map fst zs)
           \<longrightarrow> scale (zooms zs st) = MinScale)
     \<and> ((\<forall>z \<in> set zs. fst z \<le> 0) \<and> sum_list (map fst zs) \<le> - 137
           \<longrightarrow> scale (zooms zs st) = MaxScale)"
proof -
  have 1: "MinScale \<le> scale (zoom steps off st) \<and> scale (zoom steps off st) \<le> MaxScale"
    by (simp add: zoom_in_range)
  have 2: "MinScale \<le> scale (zoom_centre steps w st)
      \<and> scale (zoom_centre steps w st) \<le> MaxScale"
    by (simp add: zoom_centre_def zoom_in_range)
  have 3: "MinScale \<le> scale (wheelEvent wheel st) \<and> scale (wheelEvent wheel st) \<le> MaxScale"
    by (simp add: wheelEvent_def zoom_in_range)
  have 4: "MinScale \<le> scale (mouseMoveEvent move st)
      \<and> scale (mouseMoveEvent move st) \<le> MaxScale"
    using assms by (simp add: mouseMoveEvent_def)
  have 5: "MinScale \<le> scale (zooms zs st) \<and> scale (zooms zs st) \<le> MaxScale"
    using assms by (rule zooms_in_range)
  have 6: "scale (zooms zs st) = MinScale"
    if "\<forall>z \<in> set zs. 0 \<le> fst z" "137 \<le> sum_list (map fst zs)"
  proof -
    have "scale (zooms zs st)
        = max (scale st * (3 / 2) powr (- sum_list (map fst zs))) MinScale"
      using assms that(1) by (rule zooms_in_scale)
    also have "\<dots> = MinScale"
      using zoom_in_floor [OF assms that(2)] by (rule max_absorb2)
    finally show ?thesis .
  qed
  have 7: "scale (zooms zs st) = MaxScale"
    if "\<forall>z \<in> set zs. fst z \<le> 0" "sum_list (map fst zs) \<le> - 137"
  proof -
    have "scale (zooms zs st)
        = min (scale st * (3 / 2) powr (- sum_list (map fst zs))) MaxScale"
      using assms that(1) by (rule zooms_out_scale)
    also have "\<dots> = MaxScale"
      using zoom_out_ceiling [OF assms that(2)] by (rule min_absorb2)
    finally show ?thesis .
  qed
  show ?thesis using 1 2 3 4 5 6 7 by blast
qed

theorem scale_bounds_and_clamping_witness:
  "MinScale \<le> scale (init_viewport 0) \<and> scale (init_viewport 0) \<le> MaxScale
   \<and> 137 \<le> sum_list (map fst [(100 :: real, 365 :: int), (37, 20)])
   \<and> scale (zooms [(100, 365), (37, 20)] (init_viewport 0)) = MinScale
   \<and> sum_list (map fst [(- 137 :: real, 0 :: int)]) \<le> - 137
   \<and> scale (zooms [(- 137, 0)] (init_viewport 0)) = MaxScale
   \<and> MinScale \<le> scale (zoom 1 365 (init_viewport 0))
   \<and> scale (zoom 1 365 (init_viewport 0)) \<le> MaxScale"
proof -
  have lo: "MinScale \<le> scale (init_viewport 0)" and hi: "scale (init_viewport 0) \<le> MaxScale"
    by (simp_all add: init_viewport_def MinScale_def MaxScale_def)
  have a: "(\<forall>z \<in> set [(100 :: real, 365 :: int), (37, 20)]. 0 \<le> fst z)
     \<and> 137 \<le> sum_list (map fst [(100 :: real, 365 :: int), (37, 20)])"
    by simp
  have b: "(\<forall>z \<in> set [(- 137 :: real, 0 :: int)]. fst z \<le> 0)
     \<and> sum_list (map fst [(- 137 :: real, 0 :: int)]) \<le> - 137"
    by simp
  have "scale (zooms [(100, 365), (37, 20)] (init_viewport 0)) = MinScale"
    using scale_bounds_and_clamping [OF lo hi, of _ _ _ _ _ "[(100, 365), (37, 20)]"] a
    by blast
  moreover have "scale (zooms [(- 137, 0)] (init_viewport 0)) = MaxScale"
    using scale_bounds_and_clamping [OF lo hi, of _ _ _ _ _ "[(- 137, 0)]"] b
    by blast
  moreover have "MinScale \<le> scale (zoom 1 365 (init_viewport 0))
      \<and> scale (zoom 1 365 (init_viewport 0)) \<le> MaxScale"
    using scale_bounds_and_clamping [OF lo hi, of 1 365] by blast
  ultimately show ?thesis using lo hi a b by simp
qed

section \<open>Rounding\<close>

lemma round_even_error: "\<bar>real_of_int (round_even y) - y\<bar> \<le> 1 / 2"
proof -
  define f where "f = \<lfloor>y\<rfloor>"
  define d where "d = y - real_of_int f"
  have d: "0 \<le> d" "d < 1" unfolding d_def f_def by linarith+
  have y: "y = real_of_int f + d" by (simp add: d_def)
  have re: "round_even y =
      (if d < 1 / 2 then f else if 1 / 2 < d then f + 1 else if even f then f else f + 1)"
    unfolding round_even_def Let_def d_def f_def by (rule refl)
  consider "d < 1 / 2" | "1 / 2 < d" | "d = 1 / 2" "even f" | "d = 1 / 2" "odd f"
    by fastforce
  then show ?thesis
  proof cases
    case 1
    then have "round_even y = f" using re by simp
    then have "real_of_int (round_even y) - y = - d" by (simp add: d_def)
    then show ?thesis using 1 d by simp
  next
    case 2
    then have "round_even y = f + 1" using re by simp
    then have "real_of_int (round_even y) - y = 1 - d" by (simp add: d_def)
    then show ?thesis using 2 d by simp
  next
    case 3
    then have "round_even y = f" using re by simp
    then have "real_of_int (round_even y) - y = - d" by (simp add: d_def)
    then show ?thesis using 3 d by simp
  next
    case 4
    then have "round_even y = f + 1" using re by simp
    then have "real_of_int (round_even y) - y = 1 - d" by (simp add: d_def)
    then show ?thesis using 4 d by simp
  qed
qed

lemma powr_powi_2: "2 powr real_of_int k = (2::real) powi k"
  by (simp add: powr_real_of_int')

lemma rnd_at:
  assumes "2 powi e \<le> \<bar>x\<bar>" "\<bar>x\<bar> < 2 powi (e + 1)"
  shows "rnd p x = real_of_int (round_even (x / 2 powi (e - int p + 1))) * 2 powi (e - int p + 1)"
proof -
  have "0 < (2 :: real) powi e" by simp
  with assms(1) have pos: "0 < \<bar>x\<bar>" by linarith
  have "(2 :: real) powr (real_of_int e + 1) = 2 powr real_of_int (e + 1)" by simp
  then have "2 powr real_of_int e \<le> \<bar>x\<bar>" "\<bar>x\<bar> < 2 powr (real_of_int e + 1)"
    using assms by (simp_all only: powr_powi_2)
  then have "\<lfloor>log 2 \<bar>x\<bar>\<rfloor> = e"
    using pos by (simp add: floor_log_eq_powr_iff)
  then show ?thesis using pos by (simp add: rnd_def Let_def)
qed

lemma rnd_error: "\<bar>rnd p x - x\<bar> \<le> \<bar>x\<bar> / 2 ^ p"
proof (cases "x = 0")
  case True
  then show ?thesis by (simp add: rnd_def)
next
  case False
  define e where "e = \<lfloor>log 2 \<bar>x\<bar>\<rfloor>"
  define u :: real where "u = 2 powi (e - int p + 1)"
  have pos: "0 < \<bar>x\<bar>" using False by simp
  have "\<lfloor>log 2 \<bar>x\<bar>\<rfloor> = e" by (simp add: e_def)
  then have "2 powr real_of_int e \<le> \<bar>x\<bar>"
    using pos by (simp add: floor_log_eq_powr_iff)
  then have lo: "2 powi e \<le> \<bar>x\<bar>" by (simp only: powr_powi_2)
  have u: "0 < u" by (simp add: u_def)
  have half: "u / 2 = 2 powi e / 2 ^ p"
    by (simp add: u_def power_int_add power_int_diff)
  have "rnd p x - x = (real_of_int (round_even (x / u)) - x / u) * u"
    using False u by (simp add: rnd_def Let_def e_def u_def field_simps)
  then have "\<bar>rnd p x - x\<bar> = \<bar>real_of_int (round_even (x / u)) - x / u\<bar> * u"
    using u by (simp add: abs_mult)
  also have "\<dots> \<le> 1 / 2 * u"
    using round_even_error [of "x / u"] u by (intro mult_right_mono) simp_all
  also have "\<dots> = 2 powi e / 2 ^ p" using half by simp
  also have "\<dots> \<le> \<bar>x\<bar> / 2 ^ p"
    using lo by (simp add: divide_right_mono)
  finally show ?thesis .
qed

lemma single_bounds:
  assumes "0 < x"
  shows "x * (1 - 1 / 2 ^ 24) \<le> single x" "single x \<le> x * (1 + 1 / 2 ^ 24)"
proof -
  have E: "\<bar>single x - x\<bar> \<le> x / 2 ^ 24"
    using rnd_error [of 24 x] assms by (simp add: single_def)
  have lo: "x - x / 2 ^ 24 \<le> single x" and hi: "single x \<le> x + x / 2 ^ 24"
    using E by linarith+
  have "x * (1 - 1 / 2 ^ 24) = x - x / 2 ^ 24" by (simp add: algebra_simps)
  with lo show "x * (1 - 1 / 2 ^ 24) \<le> single x" by simp
  have "x * (1 + 1 / 2 ^ 24) = x + x / 2 ^ 24" by (simp add: algebra_simps)
  with hi show "single x \<le> x * (1 + 1 / 2 ^ 24)" by simp
qed

lemma single_abs_error:
  assumes "\<bar>x\<bar> \<le> 16"
  shows "\<bar>single x - x\<bar> \<le> 1 / 2 ^ 20"
proof -
  have "\<bar>single x - x\<bar> \<le> \<bar>x\<bar> / 2 ^ 24"
    using rnd_error [of 24 x] by (simp add: single_def)
  also have "\<dots> \<le> 16 / 2 ^ 24" using assms by (simp add: divide_right_mono)
  finally show ?thesis by simp
qed

lemma powr_root_bound:
  fixes x :: real
  assumes "0 < n" "0 \<le> x" "10 \<le> 1 + real n * x"
  shows "10 powr (1 / real n) \<le> 1 + x"
proof -
  have "1 + real n * x \<le> (1 + x) ^ n"
    using assms(2) by (intro Bernoulli_inequality) simp
  with assms(3) have "10 \<le> (1 + x) ^ n" by linarith
  also have "(1 + x) ^ n = (1 + x) powr real n"
    using assms(2) by (simp add: powr_realpow)
  finally have "(10 :: real) powr (1 / real n) \<le> ((1 + x) powr real n) powr (1 / real n)"
    by (intro powr_mono2) simp_all
  also have "\<dots> = 1 + x" using assms(1,2) by (simp add: powr_powr)
  finally show ?thesis .
qed

lemma ten_powr_small: "10 powr (1 / 2 ^ 20) \<le> (1001 / 1000 :: real)"
  using powr_root_bound [of "2 ^ 20" "1 / 1000"] by simp

lemma powr_powi_10: "10 powr real_of_int k = (10::real) powi k"
  by (simp add: powr_real_of_int')

lemma single_order_bounds:
  assumes "1 / 10 ^ 15 \<le> mp" "mp \<le> 10 ^ 15"
  shows "10 powi \<lfloor>log10f (single mp)\<rfloor> \<le> mp * (1002 / 1000)"
    and "mp < 10 powi (\<lfloor>log10f (single mp)\<rfloor> + 1) * (1002 / 1000)"
proof -
  define y where "y = single mp"
  define L where "L = log 10 y"
  define z where "z = single L"
  define k where "k = \<lfloor>z\<rfloor>"
  have mp: "0 < mp" using assms(1) by (rule less_le_trans [rotated]) simp
  have ylo: "mp * (1 - 1 / 2 ^ 24) \<le> y" and yhi: "y \<le> mp * (1 + 1 / 2 ^ 24)"
    unfolding y_def using single_bounds [OF mp] by simp_all
  have "0 < mp * (1 - 1 / 2 ^ 24)" using mp by simp
  with ylo have y: "0 < y" by linarith
  have yL: "y = 10 powr L" using y by (simp add: L_def)
  have "1 / 10 ^ 16 \<le> mp * (1 - 1 / 2 ^ 24)" using assms(1) by simp
  with ylo have "10 powr (- 16) \<le> y" by (simp add: powr_minus_divide)
  then have L1: "- 16 \<le> L" using y by (simp add: L_def le_log_iff)
  have "mp * (1 + 1 / 2 ^ 24) \<le> 10 ^ 16" using assms(2) by simp
  with yhi have "y \<le> 10 powr 16" by simp
  then have L2: "L \<le> 16" using y by (simp add: L_def log_le_iff)
  have "\<bar>z - L\<bar> \<le> 1 / 2 ^ 20"
    unfolding z_def using L1 L2 by (intro single_abs_error) simp
  then have z1: "z \<le> L + 1 / 2 ^ 20" and z2: "L - 1 / 2 ^ 20 \<le> z" by linarith+
  have k1: "real_of_int k \<le> z" and k2: "z < real_of_int k + 1"
    unfolding k_def by linarith+
  have "10 powr real_of_int k \<le> 10 powr (L + 1 / 2 ^ 20)"
    using k1 z1 by simp
  also have "\<dots> = y * 10 powr (1 / 2 ^ 20)" by (simp add: powr_add yL)
  also have "\<dots> \<le> y * (1001 / 1000)"
    using y ten_powr_small by (intro mult_left_mono) simp_all
  also have "\<dots> \<le> mp * (1 + 1 / 2 ^ 24) * (1001 / 1000)"
    using yhi by simp
  also have "\<dots> \<le> mp * (1002 / 1000)" using mp by simp
  finally have A: "10 powi k \<le> mp * (1002 / 1000)" by (simp only: powr_powi_10)
  have "L < real_of_int (k + 1) + 1 / 2 ^ 20" using k2 z2 by simp
  then have "10 powr L < 10 powr (real_of_int (k + 1) + 1 / 2 ^ 20)" by simp
  also have "\<dots> = 10 powr real_of_int (k + 1) * 10 powr (1 / 2 ^ 20)"
    by (simp only: powr_add)
  also have "\<dots> \<le> 10 powr real_of_int (k + 1) * (1001 / 1000)"
    using ten_powr_small by (intro mult_left_mono) simp_all
  finally have "y < 10 powi (k + 1) * (1001 / 1000)"
    by (simp only: powr_powi_10 yL [symmetric])
  with ylo have "mp * (1 - 1 / 2 ^ 24) < 10 powi (k + 1) * (1001 / 1000)" by linarith
  moreover have "(10 :: real) powi (k + 1) * (1001 / 1000)
      \<le> 10 powi (k + 1) * (1002 / 1000 * (1 - 1 / 2 ^ 24))"
    by (intro mult_left_mono) simp_all
  ultimately have "mp * (1 - 1 / 2 ^ 24) < 10 powi (k + 1) * (1002 / 1000) * (1 - 1 / 2 ^ 24)"
    by (simp only: mult.assoc)
  then have B: "mp < 10 powi (k + 1) * (1002 / 1000)"
    by (simp only: mult_less_cancel_right) simp
  show "10 powi \<lfloor>log10f (single mp)\<rfloor> \<le> mp * (1002 / 1000)"
    using A by (simp add: k_def z_def L_def y_def log10f_def)
  show "mp < 10 powi (\<lfloor>log10f (single mp)\<rfloor> + 1) * (1002 / 1000)"
    using B by (simp add: k_def z_def L_def y_def log10f_def)
qed

lemma powi_10_less_imp: "(10 :: real) powi a < 10 powi b \<Longrightarrow> a < b"
proof (rule ccontr)
  assume lt: "(10 :: real) powi a < 10 powi b" and "\<not> a < b"
  then have "b \<le> a" by simp
  then have "(10 :: real) powi b \<le> 10 powi a" by (intro power_int_increasing) simp_all
  with lt show False by simp
qed

lemma single_order_eq:
  assumes "10 powi k * (1002 / 1000) \<le> mp" "mp * (1002 / 1000) < 10 powi (k + 1)"
    and "1 / 10 ^ 15 \<le> mp" "mp \<le> 10 ^ 15"
  shows "\<lfloor>log10f (single mp)\<rfloor> = k"
proof -
  let ?o = "\<lfloor>log10f (single mp)\<rfloor>"
  note b = single_order_bounds [OF assms(3,4)]
  have "10 powi ?o < (10 :: real) powi (k + 1)" using b(1) assms(2) by linarith
  then have 1: "?o < k + 1" by (rule powi_10_less_imp)
  have "10 powi k * (1002 / 1000) < 10 powi (?o + 1) * (1002 / 1000 :: real)"
    using b(2) assms(1) by linarith
  then have "(10 :: real) powi k < 10 powi (?o + 1)" by simp
  then have 2: "k < ?o + 1" by (rule powi_10_less_imp)
  show ?thesis using 1 2 by simp
qed

lemma rnd_pos:
  assumes "0 < x" "0 < p"
  shows "0 < rnd p x"
proof -
  have "(2 :: real) ^ 1 \<le> 2 ^ p" using assms(2) by (intro power_increasing) simp_all
  then have "x / 2 ^ p \<le> x / 2" using assms(1) by (simp add: field_simps)
  moreover have "\<bar>rnd p x - x\<bar> \<le> x / 2 ^ p" using rnd_error [of p x] assms(1) by simp
  ultimately show ?thesis using assms(1) by linarith
qed

lemma dbl_bounds:
  assumes "0 < x"
  shows "x * (1 - 1 / 2 ^ 53) \<le> dbl x" "dbl x \<le> x * (1 + 1 / 2 ^ 53)" "0 < dbl x"
proof -
  have E: "\<bar>dbl x - x\<bar> \<le> x / 2 ^ 53"
    using rnd_error [of 53 x] assms by (simp add: dbl_def)
  have lo: "x - x / 2 ^ 53 \<le> dbl x" and hi: "dbl x \<le> x + x / 2 ^ 53"
    using E by linarith+
  have "x * (1 - 1 / 2 ^ 53) = x - x / 2 ^ 53" by (simp add: algebra_simps)
  with lo show "x * (1 - 1 / 2 ^ 53) \<le> dbl x" by simp
  have "x * (1 + 1 / 2 ^ 53) = x + x / 2 ^ 53" by (simp add: algebra_simps)
  with hi show "dbl x \<le> x * (1 + 1 / 2 ^ 53)" by simp
  show "0 < dbl x" unfolding dbl_def using assms by (rule rnd_pos) simp
qed

lemma round_even_of_int [simp]: "round_even (real_of_int n) = n"
  by (simp add: round_even_def)

lemma rnd_eval:
  assumes "2 powi e \<le> \<bar>x\<bar>" "\<bar>x\<bar> < 2 powi (e + 1)"
    and "round_even (x / 2 powi (e - int p + 1)) = m"
  shows "rnd p x = real_of_int m * 2 powi (e - int p + 1)"
  using rnd_at [OF assms(1,2), of p] assms(3) by simp

lemma round_even_eqI:
  assumes "real_of_int m - 1 / 2 < y" "y < real_of_int m + 1 / 2"
  shows "round_even y = m"
proof -
  define f where "f = \<lfloor>y\<rfloor>"
  define d where "d = y - real_of_int f"
  have d: "0 \<le> d" "d < 1" unfolding d_def f_def by linarith+
  have re: "round_even y =
      (if d < 1 / 2 then f else if 1 / 2 < d then f + 1 else if even f then f else f + 1)"
    unfolding round_even_def Let_def d_def f_def by (rule refl)
  have y: "y = real_of_int f + d" by (simp add: d_def)
  have "real_of_int m - 1 < real_of_int f + d - 1 / 2" using assms(1) y by linarith
  then have "real_of_int m < real_of_int f + 3 / 2" using d by linarith
  then have "real_of_int m < real_of_int (f + 2)" by simp
  then have 1: "m < f + 2" by (simp only: of_int_less_iff)
  have "real_of_int f < real_of_int m + 1 / 2" using assms(2) y d by linarith
  then have "real_of_int f < real_of_int (m + 1)" by simp
  then have 2: "f < m + 1" by (simp only: of_int_less_iff)
  consider "f = m" | "f = m - 1" using 1 2 by linarith
  then show ?thesis
  proof cases
    case 1
    then have "d < 1 / 2" using assms(2) y by simp
    then show ?thesis using re 1 by simp
  next
    case 2
    then have "1 / 2 < d" using assms(1) y by simp
    then show ?thesis using re 2 by simp
  qed
qed

lemma rnd_evalI:
  assumes "2 powi e \<le> x" "x < 2 powi (e + 1)"
    and "(real_of_int m - 1 / 2) * 2 powi (e - int p + 1) < x"
    and "x < (real_of_int m + 1 / 2) * 2 powi (e - int p + 1)"
  shows "rnd p x = real_of_int m * 2 powi (e - int p + 1)"
proof -
  have "0 < (2 :: real) powi e" by simp
  with assms(1) have pos: "0 < x" by linarith
  have u: "0 < (2 :: real) powi (e - int p + 1)" by simp
  have "round_even (x / 2 powi (e - int p + 1)) = m"
    using assms(3,4) u by (intro round_even_eqI) (simp_all add: pos_less_divide_eq pos_divide_less_eq)
  then show ?thesis
    using rnd_eval [of e x p m] assms(1,2) pos by simp
qed

lemma dbl_eval:
  assumes "2 powi e \<le> x" "x < 2 powi (e + 1)"
    and "(real_of_int m - 1 / 2) * 2 powi (e - 52) < x"
    and "x < (real_of_int m + 1 / 2) * 2 powi (e - 52)"
  shows "dbl x = real_of_int m * 2 powi (e - 52)"
  using rnd_evalI [of e x m 53] assms by (simp add: dbl_def)


lemma dbl_repr:
  assumes "x = real_of_int m * 2 powi (e - 52)" "2 ^ 52 \<le> m" "m < 2 ^ 53"
  shows "dbl x = x"
proof -
  have u: "0 < (2 :: real) powi (e - 52)" by simp
  have e: "(2 :: real) powi e = 2 ^ 52 * 2 powi (e - 52)"
    by (simp add: power_int_diff)
  have e1: "(2 :: real) powi (e + 1) = 2 ^ 53 * 2 powi (e - 52)"
    by (simp add: power_int_diff power_int_add)
  have "real_of_int (2 ^ 52) \<le> real_of_int m" using assms(2) by (simp only: of_int_le_iff)
  then have 1: "2 powi e \<le> x"
    unfolding e assms(1) using u by (intro mult_right_mono) simp_all
  have "real_of_int m < real_of_int (2 ^ 53)" using assms(3) by (simp only: of_int_less_iff)
  then have 2: "x < 2 powi (e + 1)"
    unfolding e1 assms(1) using u by (intro mult_strict_right_mono) simp_all
  have 3: "(real_of_int m - 1 / 2) * 2 powi (e - 52) < x"
    unfolding assms(1) using u by (intro mult_strict_right_mono) simp_all
  have 4: "x < (real_of_int m + 1 / 2) * 2 powi (e - 52)"
    unfolding assms(1) using u by (intro mult_strict_right_mono) simp_all
  show ?thesis using dbl_eval [OF 1 2 3 4] assms(1) by simp
qed







section \<open>The tick period and the prefix\<close>

lemma unit_loop_0:
  "unit_loop od mp 0 =
     (if dbl od < mp then (if dbl (od * 2) < mp then dbl (od * 5) else dbl (od * 2))
      else dbl od)"
  by (simp add: unit_loop.simps [of _ _ 0] unit_loop.simps [of _ _ "Suc 0"]
      unit_loop.simps [of _ _ "Suc (Suc 0)"] ScaleUnits_def Let_def)

lemma tick_period_choice:
  "tick_period_of st =
     (if min_period_of st \<le> dbl (order_decimal_of st) then dbl (order_decimal_of st)
      else if min_period_of st \<le> dbl (order_decimal_of st * 2)
        then dbl (order_decimal_of st * 2)
      else dbl (order_decimal_of st * 5))"
  by (simp add: tick_period_of_def unit_loop_0 not_less)

lemma order_decimal_pos: "0 < order_decimal_of st"
  unfolding order_decimal_of_def by (intro dbl_bounds(3)) simp

lemma tick_period_pos: "0 < tick_period_of st"
  using order_decimal_pos [of st]
  by (simp add: tick_period_choice dbl_bounds(3))

lemma min_period_bounds:
  assumes "0 < scale st"
  shows "scale st * 80 * (1 - 1 / 2 ^ 53) \<le> min_period_of st"
    and "min_period_of st \<le> scale st * 80 * (1 + 1 / 2 ^ 53)"
    and "0 < min_period_of st"
  using dbl_bounds [of "scale st * 80"] assms
  by (simp_all add: min_period_of_def MinSpacing_def)

lemma min_period_range:
  assumes "MinScale \<le> scale st" "scale st \<le> MaxScale"
  shows "79 / 10 ^ 15 \<le> min_period_of st" "min_period_of st \<le> 81 * 10 ^ 9"
proof -
  have pos: "0 < scale st" using assms(1) by (simp add: MinScale_def)
  have "79 / 10 ^ 15 \<le> (1 / 10 ^ 15) * 80 * (1 - 1 / 2 ^ 53 :: real)" by simp
  also have "\<dots> \<le> scale st * 80 * (1 - 1 / 2 ^ 53)"
    using assms(1) by (intro mult_right_mono) (simp_all add: MinScale_def)
  also have "\<dots> \<le> min_period_of st" by (rule min_period_bounds(1) [OF pos])
  finally show "79 / 10 ^ 15 \<le> min_period_of st" .
  have "min_period_of st \<le> scale st * 80 * (1 + 1 / 2 ^ 53)"
    by (rule min_period_bounds(2) [OF pos])
  also have "\<dots> \<le> 10 ^ 9 * 80 * (1 + 1 / 2 ^ 53)"
    using assms(2) by (intro mult_right_mono) (simp_all add: MaxScale_def)
  also have "\<dots> \<le> 81 * 10 ^ 9" by simp
  finally show "min_period_of st \<le> 81 * 10 ^ 9" .
qed

lemma order_bounds:
  assumes "MinScale \<le> scale st" "scale st \<le> MaxScale"
  shows "10 powi order_of st \<le> min_period_of st * (1002 / 1000)"
    and "min_period_of st < 10 powi (order_of st + 1) * (1002 / 1000)"
proof -
  note r = min_period_range [OF assms]
  have lo: "1 / 10 ^ 15 \<le> min_period_of st" using r(1) by simp
  have hi: "min_period_of st \<le> 10 ^ 15" using r(2) by simp
  show "10 powi order_of st \<le> min_period_of st * (1002 / 1000)"
    unfolding order_of_def by (rule single_order_bounds(1) [OF lo hi])
  show "min_period_of st < 10 powi (order_of st + 1) * (1002 / 1000)"
    unfolding order_of_def by (rule single_order_bounds(2) [OF lo hi])
qed

lemma order_range:
  assumes "MinScale \<le> scale st" "scale st \<le> MaxScale"
  shows "- 14 \<le> order_of st" "order_of st \<le> 10"
proof -
  note r = min_period_range [OF assms] and b = order_bounds [OF assms]
  have "10 powi (- 14) * (1002 / 1000) \<le> (79 / 10 ^ 15 :: real)"
    by (simp add: power_int_def power_divide)
  with r(1) b(2) have "10 powi (- 14) * (1002 / 1000 :: real)
      < 10 powi (order_of st + 1) * (1002 / 1000)" by linarith
  then have "(10 :: real) powi (- 14) < 10 powi (order_of st + 1)" by simp
  then have "- 14 < order_of st + 1" by (rule powi_10_less_imp)
  then show "- 14 \<le> order_of st" by simp
  have "81 * 10 ^ 9 * (1002 / 1000) < (10 :: real) powi 11" by simp
  with r(2) b(1) have "(10 :: real) powi order_of st < 10 powi 11" by linarith
  then have "order_of st < 11" by (rule powi_10_less_imp)
  then show "order_of st \<le> 10" by simp
qed

lemma sdiv_nonneg: "0 \<le> a \<Longrightarrow> a sdiv 3 = a div 3" for a :: int
  by (cases "a = 0") (simp_all add: signed_divide_int_def)

lemma prefix_range:
  assumes "MinScale \<le> scale st" "scale st \<le> MaxScale"
  shows "0 \<le> prefix_of st" "prefix_of st < 9"
proof -
  have 1: "0 \<le> order_of st + 15" and 2: "order_of st + 15 \<le> 25"
    using order_range [OF assms] by simp_all
  have "prefix_of st = (order_of st + 15) div 3"
    using 1 by (simp add: prefix_of_def FirstSIPrefixPower_def sdiv_nonneg)
  then show "0 \<le> prefix_of st" "prefix_of st < 9"
    using 1 2 by simp_all
qed

lemma tick_loop_break:
  "real_of_int w \<le> time_to_pixel st (tick_time t0 m d)
     \<Longrightarrow> tick_loop st w t0 m od p d = Inr []"
  by (simp add: tick_loop.simps [of st w t0 m od p d] Let_def)

lemma tick_loop_overflow:
  "time_to_pixel st (tick_time t0 m d) < real_of_int w \<Longrightarrow> INT_MAX \<le> d
     \<Longrightarrow> tick_loop st w t0 m od p d = Inl SignedOverflow"
  by (simp add: tick_loop.simps [of st w t0 m od p d] Let_def)

lemma tick_loop_step:
  "time_to_pixel st (tick_time t0 m d) < real_of_int w \<Longrightarrow> d < INT_MAX
     \<Longrightarrow> tick_loop st w t0 m od p d
       = (case tick_loop st w t0 m od p (d + 1) of
            Inl e \<Rightarrow> Inl e
          | Inr rest \<Rightarrow>
              Inr (draw_tick (time_to_pixel st (tick_time t0 m d)) (tick_time t0 m d) d od p
                # rest))"
  by (simp add: tick_loop.simps [of st w t0 m od p d] Let_def)

lemma tick_loop_error:
  "tick_loop st w t0 m od p d = Inl e \<Longrightarrow> e = SignedOverflow"
proof (induction st w t0 m od p d rule: tick_loop.induct)
  case (1 st w t0 m od p d)
  show ?case
  proof (cases "real_of_int w \<le> time_to_pixel st (tick_time t0 m d)")
    case True
    then show ?thesis using "1.prems" by (simp add: tick_loop_break)
  next
    case False
    then have nb: "time_to_pixel st (tick_time t0 m d) < real_of_int w" by simp
    show ?thesis
    proof (cases "INT_MAX \<le> d")
      case True
      then show ?thesis using "1.prems" nb by (simp add: tick_loop_overflow)
    next
      case False
      then have "tick_loop st w t0 m od p (d + 1) = Inl e"
        using "1.prems" nb by (simp add: tick_loop_step split: sum.splits)
      then show ?thesis
        using "1.IH" [OF refl refl _ False] nb by simp
    qed
  qed
qed

lemma length_SIPrefixes: "length SIPrefixes = 9"
  by (simp add: SIPrefixes_def)

text \<open>
  C6. Validity of the prefix assertions: for every scale between \<open>MinScale\<close> and
  \<open>MaxScale\<close> the prefix index \<open>(order - FirstSIPrefixPower) / 3\<close> is at least 0 and below
  9 and indexes the table of nine prefixes in bounds, so \<open>paint_ruler\<close> passes both
  assertions and goes on to the ticks.
\<close>

theorem si_prefix_in_bounds:
  assumes "MinScale \<le> scale st" "scale st \<le> MaxScale"
  shows "0 \<le> prefix_of st \<and> prefix_of st < 9
     \<and> nat (prefix_of st) < length SIPrefixes
     \<and> paint_ruler st w = ruler_ticks st w
     \<and> paint_ruler st w \<noteq> Inl AssertionFailed"
proof -
  note p = prefix_range [OF assms]
  have run: "paint_ruler st w = ruler_ticks st w"
    using p by (simp add: paint_ruler_def length_SIPrefixes Let_def)
  have "ruler_ticks st w \<noteq> Inl AssertionFailed"
    unfolding ruler_ticks_def using tick_loop_error by fastforce
  moreover have "nat (prefix_of st) < length SIPrefixes"
    using p by (simp add: length_SIPrefixes)
  ultimately show ?thesis using p run by simp
qed

theorem si_prefix_in_bounds_witness:
  "MinScale \<le> scale ((init_viewport 0)\<lparr>scale := MinScale\<rparr>)
   \<and> scale ((init_viewport 0)\<lparr>scale := MinScale\<rparr>) \<le> MaxScale
   \<and> 0 \<le> prefix_of ((init_viewport 0)\<lparr>scale := MinScale\<rparr>)
   \<and> prefix_of ((init_viewport 0)\<lparr>scale := MinScale\<rparr>) < 9
   \<and> MinScale \<le> scale ((init_viewport 0)\<lparr>scale := MaxScale\<rparr>)
   \<and> scale ((init_viewport 0)\<lparr>scale := MaxScale\<rparr>) \<le> MaxScale
   \<and> 0 \<le> prefix_of ((init_viewport 0)\<lparr>scale := MaxScale\<rparr>)
   \<and> prefix_of ((init_viewport 0)\<lparr>scale := MaxScale\<rparr>) < 9"
  using si_prefix_in_bounds [of "(init_viewport 0)\<lparr>scale := MinScale\<rparr>" 0]
    si_prefix_in_bounds [of "(init_viewport 0)\<lparr>scale := MaxScale\<rparr>" 0]
  by (simp add: MinScale_def MaxScale_def)

lemma order_eqI:
  assumes "MinScale \<le> scale st" "scale st \<le> MaxScale"
    and "10 powi k * (1003 / 1000) \<le> scale st * 80"
    and "scale st * 80 * (1003 / 1000) < 10 powi (k + 1)"
  shows "order_of st = k"
proof -
  have pos: "0 < scale st" using assms(1) by (simp add: MinScale_def)
  note b = min_period_bounds [OF pos] and r = min_period_range [OF assms(1,2)]
  have p: "0 < (10 :: real) powi k" by simp
  have "10 powi k * (1002 / 1000) \<le> 10 powi k * (1003 / 1000) * (1 - 1 / 2 ^ 53 :: real)"
    using p by simp
  also have "\<dots> \<le> scale st * 80 * (1 - 1 / 2 ^ 53)"
    using assms(3) by (intro mult_right_mono) simp_all
  also have "\<dots> \<le> min_period_of st" by (rule b(1))
  finally have 1: "10 powi k * (1002 / 1000) \<le> min_period_of st" .
  have "min_period_of st * (1002 / 1000) \<le> scale st * 80 * (1 + 1 / 2 ^ 53) * (1002 / 1000)"
    using b(2) by (intro mult_right_mono) simp_all
  also have "\<dots> \<le> scale st * 80 * (1003 / 1000)" using pos by simp
  also have "\<dots> < 10 powi (k + 1)" by (rule assms(4))
  finally have 2: "min_period_of st * (1002 / 1000) < 10 powi (k + 1)" .
  have lo: "1 / 10 ^ 15 \<le> min_period_of st" using r(1) by simp
  have hi: "min_period_of st \<le> 10 ^ 15" using r(2) by simp
  show ?thesis unfolding order_of_def by (rule single_order_eq [OF 1 2 lo hi])
qed










lemma half_offset: "offset half_second_view = 30"
  by (simp add: half_second_view_def)







lemma init_offset: "offset (init_viewport g) = 0"
  by (simp add: init_viewport_def)
















section \<open>Large offsets at small scales\<close>

text \<open>
  The painter adds multiples of the minor period to a time near the offset. Where the
  offset is so large against the scale that the period is below the distance between the
  \<open>double\<close> numbers around the offset, the sums are absorbed.
\<close>

subsection \<open>The minimum scale\<close>

lemma dbl_MinScale: "dbl MinScale = 5070602400912918 / 2 ^ 102"
proof -
  have "dbl (1 / 10 ^ 15) = real_of_int 5070602400912918 * 2 powi (- 50 - 52)"
    by (rule dbl_eval) (simp_all add: power_int_def power_divide)
  then show ?thesis by (simp add: MinScale_def power_int_def power_divide)
qed

lemma min_view_scale: "scale (min_scale_view off) = 5070602400912918 / 2 ^ 102"
  by (simp add: min_scale_view_def dbl_MinScale)

lemma min_view_offset: "offset (min_scale_view off) = off"
  by (simp add: min_scale_view_def)

lemma min_view_range:
  "MinScale \<le> scale (min_scale_view off)" "scale (min_scale_view off) \<le> MaxScale"
  by (simp_all add: min_view_scale MinScale_def MaxScale_def)

lemma round_even_tie:
  "round_even (real_of_int f + 1 / 2) = (if even f then f else f + 1)"
proof -
  have "\<lfloor>real_of_int f + 1 / 2\<rfloor> = f" by linarith
  then show ?thesis by (simp add: round_even_def Let_def)
qed

lemma dbl_tie:
  assumes "2 powi e \<le> x" "x < 2 powi (e + 1)"
    and "x = (real_of_int f + 1 / 2) * 2 powi (e - 52)"
  shows "dbl x = real_of_int (if even f then f else f + 1) * 2 powi (e - 52)"
proof -
  have "0 < (2 :: real) powi e" by simp
  with assms(1) have pos: "0 < x" by linarith
  have "x / 2 powi (e - 52) = real_of_int f + 1 / 2" by (simp add: assms(3))
  then have "round_even (x / 2 powi (e - int 53 + 1)) = (if even f then f else f + 1)"
    by (simp add: round_even_tie)
  then show ?thesis
    using rnd_eval [of e x 53 "if even f then f else f + 1"] assms(1,2) pos
    by (simp add: dbl_def)
qed

lemma min_view_min_period: "min_period_of (min_scale_view off) = 6338253001141148 / 2 ^ 96"
proof -
  have "dbl (5070602400912918 / 2 ^ 102 * 80)
      = real_of_int (if even (6338253001141147 :: int) then 6338253001141147
          else 6338253001141147 + 1) * 2 powi (- 44 - 52)"
    by (rule dbl_tie) (simp_all add: power_int_def power_divide)
  then show ?thesis
    by (simp add: min_period_of_def min_view_scale MinSpacing_def power_int_def power_divide)
qed

lemma min_view_order: "order_of (min_scale_view off) = - 14"
  by (rule order_eqI [OF min_view_range]) (simp_all add: min_view_scale power_int_def power_divide)

lemma min_view_order_decimal:
  "order_decimal_of (min_scale_view off) = 6338253001141147 / 2 ^ 99"
proof -
  have "dbl (1 / 10 ^ 14) = real_of_int 6338253001141147 * 2 powi (- 47 - 52)"
    by (rule dbl_eval) (simp_all add: power_int_def power_divide)
  then show ?thesis
    by (simp add: order_decimal_of_def min_view_order power_int_def power_divide)
qed

lemma min_view_tick_period: "tick_period_of (min_scale_view off) = 7922816251426434 / 2 ^ 97"
proof -
  have 1: "dbl (6338253001141147 / 2 ^ 99) = 6338253001141147 / 2 ^ 99"
    by (rule dbl_repr [of _ 6338253001141147 "- 47"]) (simp_all add: power_int_def power_divide)
  have 2: "dbl (6338253001141147 / 2 ^ 99 * 2) = 6338253001141147 / 2 ^ 98"
    by (subst dbl_repr [of _ 6338253001141147 "- 46"]) (simp_all add: power_int_def power_divide)
  have "dbl (6338253001141147 / 2 ^ 99 * 5) = real_of_int 7922816251426434 * 2 powi (- 45 - 52)"
    by (rule dbl_eval) (simp_all add: power_int_def power_divide)
  then have 3: "dbl (6338253001141147 / 2 ^ 99 * 5) = 7922816251426434 / 2 ^ 97"
    by (simp add: power_int_def power_divide)
  show ?thesis
    by (simp only: tick_period_choice min_view_order_decimal min_view_min_period 1 2 3) simp
qed

lemma min_view_minor: "minor_tick_period_of (min_scale_view off) = 7922816251426434 / 2 ^ 99"
proof -
  have "dbl (7922816251426434 / 2 ^ 97 / 4) = 7922816251426434 / 2 ^ 97 / 4"
    by (rule dbl_repr [of _ 7922816251426434 "- 47"]) (simp_all add: power_int_def power_divide)
  then show ?thesis
    by (simp add: minor_tick_period_of_def min_view_tick_period MinorTickSubdivision_def)
qed


lemma dbl_0: "dbl 0 = 0"
  by (simp add: dbl_def rnd_def)

lemma far_first_major:
  "first_major_division_of far_view = 19999999999999997516972032"
proof -
  have "dbl (10 ^ 12 / (7922816251426434 / 2 ^ 97))
      = real_of_int 4656612873077392 * 2 powi (84 - 52)"
    by (rule dbl_eval) (simp_all add: power_int_def power_divide)
  then have "dbl (10 ^ 12 / (7922816251426434 / 2 ^ 97)) = 19999999999999997516972032"
    by simp
  then show ?thesis
    by (simp only: first_major_division_of_def far_view_def min_view_tick_period
        min_view_offset) simp
qed

lemma far_first_minor:
  "first_minor_division_of far_view = 79999999999999990067888128"
proof -
  have "dbl (10 ^ 12 / (7922816251426434 / 2 ^ 99))
      = real_of_int 4656612873077392 * 2 powi (86 - 52)"
    by (rule dbl_eval) (simp_all add: power_int_def power_divide)
  then have "dbl (10 ^ 12 / (7922816251426434 / 2 ^ 99)) = 79999999999999990067888128"
    by simp
  then show ?thesis
    by (simp only: first_minor_division_of_def far_view_def min_view_minor
        min_view_offset) simp
qed

lemma far_t0: "t0_of far_view = 8191999999999999 / 2 ^ 13"
proof -
  have "dbl (19999999999999997516972032 * (7922816251426434 / 2 ^ 97))
      = real_of_int 8191999999999999 * 2 powi (39 - 52)"
    by (rule dbl_eval) (simp_all add: power_int_def power_divide)
  then have "dbl (19999999999999997516972032 * (7922816251426434 / 2 ^ 97))
      = 8191999999999999 / 2 ^ 13"
    by (simp add: power_int_def power_divide)
  then show ?thesis
    by (simp only: t0_of_def far_first_major)
      (simp only: far_view_def min_view_tick_period)
qed

lemma far_first_division: "first_division_of far_view = 0"
proof -
  have "dbl (19999999999999997516972032 * 4) = 19999999999999997516972032 * 4"
    by (rule dbl_repr [of _ 4656612873077392 86]) (simp_all add: power_int_def power_divide)
  then have "dbl (19999999999999997516972032 * real_of_int MinorTickSubdivision)
      = 79999999999999990067888128"
    by (simp add: MinorTickSubdivision_def)
  then show ?thesis
    by (simp only: first_division_of_def far_first_major far_first_minor)
      (simp add: dbl_0 c_round_def)
qed

lemma far_minor: "minor_tick_period_of far_view = 7922816251426434 / 2 ^ 99"
  unfolding far_view_def by (rule min_view_minor)

text \<open>
  Every increment that an \<open>int\<close> division can give is below half the distance between
  the \<open>double\<close> numbers around the first time, so the sum rounds back to the first time.
\<close>

lemma far_tick_time:
  assumes "0 \<le> d" "d \<le> INT_MAX"
  shows "tick_time (t0_of far_view) (minor_tick_period_of far_view) d = t0_of far_view"
proof -
  define y where "y = dbl (real_of_int d * (7922816251426434 / 2 ^ 99))"
  have y: "0 \<le> y \<and> y < 1 / 2 ^ 15"
  proof (cases "d = 0")
    case True
    then show ?thesis by (simp add: y_def dbl_0)
  next
    case False
    then have d: "1 \<le> real_of_int d" "real_of_int d \<le> 2 ^ 31"
      using assms by (simp_all add: INT_MAX_def)
    define z where "z = real_of_int d * (7922816251426434 / 2 ^ 99)"
    have z: "0 < z" "z \<le> 2 ^ 31 * (7922816251426434 / 2 ^ 99)"
      using d unfolding z_def by simp_all
    have "y \<le> z * (1 + 1 / 2 ^ 53)" "0 < y"
      using dbl_bounds [OF z(1)] by (simp_all add: y_def z_def)
    moreover have "z * (1 + 1 / 2 ^ 53) \<le> 2 ^ 31 * (7922816251426434 / 2 ^ 99) * (1 + 1 / 2 ^ 53)"
      using z(2) by (intro mult_right_mono) simp_all
    moreover have "2 ^ 31 * (7922816251426434 / 2 ^ 99) * (1 + 1 / 2 ^ 53) < (1 / 2 ^ 15 :: real)"
      by simp
    ultimately show ?thesis by linarith
  qed
  have "dbl (8191999999999999 / 2 ^ 13 + y) = real_of_int 8191999999999999 * 2 powi (39 - 52)"
    using y by (intro dbl_eval) (simp_all add: power_int_def power_divide)
  then have "dbl (8191999999999999 / 2 ^ 13 + y) = 8191999999999999 / 2 ^ 13"
    by (simp add: power_int_def power_divide)
  then show ?thesis
    unfolding tick_time_def far_t0 far_minor y_def .
qed

lemma dbl_neg:
  assumes "x < 0"
  shows "dbl x \<le> x / 2"
proof -
  have "\<bar>dbl x - x\<bar> \<le> \<bar>x\<bar> / 2 ^ 53" unfolding dbl_def by (rule rnd_error)
  moreover have "\<bar>x\<bar> / 2 ^ 53 \<le> \<bar>x\<bar> / 2" using assms by (simp add: field_simps)
  ultimately show ?thesis using assms by linarith
qed

lemma far_pixel: "time_to_pixel far_view (t0_of far_view) < 0"
proof -
  define a where "a = dbl (8191999999999999 / 2 ^ 13 - 10 ^ 12)"
  have "a \<le> (8191999999999999 / 2 ^ 13 - 10 ^ 12) / 2"
    unfolding a_def by (rule dbl_neg) simp
  then have a: "a \<le> - (1 / 2 ^ 14)" by simp
  define b where "b = dbl (a / (5070602400912918 / 2 ^ 102))"
  have "a / (5070602400912918 / 2 ^ 102) \<le> - (1 / 2 ^ 14) / (5070602400912918 / 2 ^ 102)"
    using a by (intro divide_right_mono) simp_all
  also have "\<dots> \<le> - 1000" by simp
  finally have q: "a / (5070602400912918 / 2 ^ 102) \<le> - 1000" .
  then have "b \<le> a / (5070602400912918 / 2 ^ 102) / 2"
    unfolding b_def by (intro dbl_neg) simp
  with q have b: "b \<le> - 500" by simp
  have "dbl (b + 70) \<le> (b + 70) / 2" using b by (intro dbl_neg) simp
  with b have "dbl (b + real_of_int LabelMarginWidth) < 0"
    by (simp add: LabelMarginWidth_def)
  then show ?thesis
    unfolding time_to_pixel_def far_t0
    unfolding far_view_def min_view_scale min_view_offset a_def b_def .
qed

lemma far_loop:
  "0 \<le> d \<Longrightarrow> d \<le> INT_MAX \<Longrightarrow> 0 \<le> w
    \<Longrightarrow> tick_loop far_view w (t0_of far_view) (minor_tick_period_of far_view) od p d
      = Inl SignedOverflow"
proof (induction "nat (INT_MAX - d)" arbitrary: d)
  case 0
  then have d: "INT_MAX \<le> d" by simp
  have w: "0 \<le> real_of_int w" using "0.prems"(3) by simp
  have "time_to_pixel far_view
      (tick_time (t0_of far_view) (minor_tick_period_of far_view) d) < 0"
    unfolding far_tick_time [OF "0.prems"(1,2)] by (rule far_pixel)
  with w have "time_to_pixel far_view
      (tick_time (t0_of far_view) (minor_tick_period_of far_view) d) < real_of_int w"
    by linarith
  then show ?case using d by (rule tick_loop_overflow)
next
  case (Suc n)
  then have d: "d < INT_MAX" by simp
  have w: "0 \<le> real_of_int w" using Suc.prems(3) by simp
  have "time_to_pixel far_view
      (tick_time (t0_of far_view) (minor_tick_period_of far_view) d) < 0"
    unfolding far_tick_time [OF Suc.prems(1,2)] by (rule far_pixel)
  with w have x: "time_to_pixel far_view
      (tick_time (t0_of far_view) (minor_tick_period_of far_view) d) < real_of_int w"
    by linarith
  have "tick_loop far_view w (t0_of far_view) (minor_tick_period_of far_view) od p (d + 1)
      = Inl SignedOverflow"
    using Suc.hyps(2) Suc.prems d by (intro Suc.hyps(1)) simp_all
  then show ?case by (simp add: tick_loop_step [OF x d])
qed

text \<open>
  C8 fails at the minimum scale with the offset \<open>10 ^ 12\<close>, in a widget 800 pixels wide.
  The first time is 999999999999.9999, the \<open>double\<close> below the offset; the minor period
  is 1.25e-14, and every division that an \<open>int\<close> can count adds less than half the distance
  to the next \<open>double\<close>. So every candidate time is the first time, its pixel is about
  -1.22e11, the loop never reaches its \<open>break\<close>, and the counter runs into its overflow.
\<close>

theorem tick_loop_never_breaks:
  "MinScale \<le> scale far_view \<and> paint_ruler far_view 800 = Inl SignedOverflow"
proof -
  have p: "0 \<le> prefix_of far_view" "prefix_of far_view < 9"
    unfolding far_view_def by (rule prefix_range [OF min_view_range])+
  have "ruler_ticks far_view 800 = Inl SignedOverflow"
    unfolding ruler_ticks_def far_first_division
    by (rule far_loop) (simp_all add: INT_MAX_def)
  then have "paint_ruler far_view 800 = Inl SignedOverflow"
    using p by (simp add: paint_ruler_def Let_def length_SIPrefixes)
  moreover have "MinScale \<le> scale far_view"
    unfolding far_view_def by (rule min_view_range(1))
  ultimately show ?thesis by (simp only: simp_thms)
qed

subsection \<open>Runs of the tick loop\<close>

lemma round_even_minus: "round_even (- y) = - round_even y"
proof -
  define f where "f = \<lfloor>y\<rfloor>"
  define d where "d = y - real_of_int f"
  have d: "0 \<le> d" "d < 1" unfolding d_def f_def by linarith+
  have y: "y = real_of_int f + d" by (simp add: d_def)
  have re: "round_even y =
      (if d < 1 / 2 then f else if 1 / 2 < d then f + 1 else if even f then f else f + 1)"
    unfolding round_even_def Let_def d_def f_def by (rule refl)
  consider "d < 1 / 2" | "1 / 2 < d" | "d = 1 / 2" by linarith
  then show ?thesis
  proof cases
    case 1
    then have m: "round_even y = f" using re by simp
    have "round_even (- y) = - f"
      using 1 d y by (intro round_even_eqI) simp_all
    then show ?thesis using m by simp
  next
    case 2
    then have m: "round_even y = f + 1" using re by simp
    have "round_even (- y) = - (f + 1)"
      using 2 d y by (intro round_even_eqI) simp_all
    then show ?thesis using m by simp
  next
    case 3
    then have m: "round_even y = (if even f then f else f + 1)" using re by simp
    have "- y = real_of_int (- f - 1) + 1 / 2" using 3 y by simp
    then have "round_even (- y) = (if even (- f - 1) then - f - 1 else (- f - 1) + 1)"
      by (simp only: round_even_tie)
    then show ?thesis using m by simp
  qed
qed

lemma rnd_minus: "rnd p (- x) = - rnd p x"
  by (simp add: rnd_def Let_def round_even_minus)

lemma dbl_minus: "dbl (- x) = - dbl x"
  by (simp add: dbl_def rnd_minus)

text \<open>
  The loop draws the divisions from the first one up to the first whose pixel reaches the
  width.
\<close>

lemma tick_loop_run:
  assumes "\<And>j. d \<le> j \<Longrightarrow> j < n \<Longrightarrow> time_to_pixel st (tick_time t0 m j) < real_of_int w"
    and "real_of_int w \<le> time_to_pixel st (tick_time t0 m n)"
    and "d \<le> n" "n \<le> INT_MAX"
  shows "tick_loop st w t0 m od p d
    = Inr (map (\<lambda>j. draw_tick (time_to_pixel st (tick_time t0 m j)) (tick_time t0 m j) j od p)
        [d..n - 1])"
  using assms(1,3)
proof (induction "nat (n - d)" arbitrary: d)
  case 0
  then have "d = n" by simp
  then show ?case using assms(2) by (simp add: tick_loop_break)
next
  case (Suc k)
  then have d: "d < n" by simp
  then have x: "time_to_pixel st (tick_time t0 m d) < real_of_int w"
    using Suc.prems(1) by simp
  have dm: "d < INT_MAX" using d assms(4) by simp
  have "tick_loop st w t0 m od p (d + 1)
    = Inr (map (\<lambda>j. draw_tick (time_to_pixel st (tick_time t0 m j)) (tick_time t0 m j) j od p)
        [d + 1..n - 1])"
    using Suc.hyps(2) Suc.prems d by (intro Suc.hyps(1)) simp_all
  moreover have "[d..n - 1] = d # [d + 1..n - 1]"
    using d by (simp add: upto_rec1)
  ultimately show ?case by (simp add: tick_loop_step [OF x dm])
qed

subsection \<open>The round trip between pixels and times\<close>





lemma dbl_70: "dbl 70 = 70"
  by (rule dbl_repr [of _ "70 * 2 ^ 46" 6]) (simp_all add: power_int_def power_divide)





subsection \<open>The ticks around the offset 1000\<close>















subsection \<open>A widget of width zero\<close>

lemma pico_scale: "scale picosecond_view = 4951760157141521 / 2 ^ 92"
proof -
  have "dbl (1 / 10 ^ 12) = real_of_int 4951760157141521 * 2 powi (- 40 - 52)"
    by (rule dbl_eval) (simp_all add: power_int_def power_divide)
  then show ?thesis by (simp add: picosecond_view_def power_int_def power_divide)
qed

lemma pico_offset: "offset picosecond_view = 2000001 / 2"
  by (simp add: picosecond_view_def)

lemma pico_range:
  "MinScale \<le> scale picosecond_view" "scale picosecond_view \<le> MaxScale"
  by (simp_all add: pico_scale MinScale_def MaxScale_def)

lemma pico_min_period: "min_period_of picosecond_view = 6189700196426901 / 2 ^ 86"
proof -
  have "dbl (4951760157141521 / 2 ^ 92 * 80) = real_of_int 6189700196426901 * 2 powi (- 34 - 52)"
    by (rule dbl_eval) (simp_all add: power_int_def power_divide)
  then show ?thesis
    by (simp add: min_period_of_def pico_scale MinSpacing_def power_int_def power_divide)
qed

lemma pico_order: "order_of picosecond_view = - 11"
  by (rule order_eqI [OF pico_range]) (simp_all add: pico_scale power_int_def power_divide)

lemma pico_order_decimal: "order_decimal_of picosecond_view = 6189700196426901 / 2 ^ 89"
proof -
  have "dbl (1 / 10 ^ 11) = real_of_int 6189700196426901 * 2 powi (- 37 - 52)"
    by (rule dbl_eval) (simp_all add: power_int_def power_divide)
  then show ?thesis
    by (simp add: order_decimal_of_def pico_order power_int_def power_divide)
qed

lemma pico_tick_period: "tick_period_of picosecond_view = 7737125245533626 / 2 ^ 87"
proof -
  have 1: "dbl (6189700196426901 / 2 ^ 89) = 6189700196426901 / 2 ^ 89"
    by (rule dbl_repr [of _ 6189700196426901 "- 37"]) (simp_all add: power_int_def power_divide)
  have 2: "dbl (6189700196426901 / 2 ^ 89 * 2) = 6189700196426901 / 2 ^ 88"
    by (subst dbl_repr [of _ 6189700196426901 "- 36"]) (simp_all add: power_int_def power_divide)
  have "dbl (6189700196426901 / 2 ^ 89 * 5) = real_of_int 7737125245533626 * 2 powi (- 35 - 52)"
    by (rule dbl_eval) (simp_all add: power_int_def power_divide)
  then have 3: "dbl (6189700196426901 / 2 ^ 89 * 5) = 7737125245533626 / 2 ^ 87"
    by (simp add: power_int_def power_divide)
  show ?thesis
    by (simp only: tick_period_choice pico_order_decimal pico_min_period 1 2 3) simp
qed

lemma pico_minor: "minor_tick_period_of picosecond_view = 7737125245533626 / 2 ^ 89"
proof -
  have "dbl (7737125245533626 / 2 ^ 87 / 4) = 7737125245533626 / 2 ^ 87 / 4"
    by (rule dbl_repr [of _ 7737125245533626 "- 37"]) (simp_all add: power_int_def power_divide)
  then show ?thesis
    by (simp add: minor_tick_period_of_def pico_tick_period MinorTickSubdivision_def)
qed

lemma pico_first_major: "first_major_division_of picosecond_view = 20000010000000000"
proof -
  have "dbl (2000001 / 2 / (7737125245533626 / 2 ^ 87))
      = real_of_int 5000002500000000 * 2 powi (54 - 52)"
    by (rule dbl_eval) (simp_all add: power_int_def power_divide)
  then have "dbl (2000001 / 2 / (7737125245533626 / 2 ^ 87)) = 20000010000000000"
    by simp
  then show ?thesis
    by (simp only: first_major_division_of_def pico_tick_period pico_offset) simp
qed

lemma pico_first_minor: "first_minor_division_of picosecond_view = 80000040000000000"
proof -
  have "dbl (2000001 / 2 / (7737125245533626 / 2 ^ 89))
      = real_of_int 5000002500000000 * 2 powi (56 - 52)"
    by (rule dbl_eval) (simp_all add: power_int_def power_divide)
  then have "dbl (2000001 / 2 / (7737125245533626 / 2 ^ 89)) = 80000040000000000"
    by simp
  then show ?thesis
    by (simp only: first_minor_division_of_def pico_minor pico_offset) simp
qed

lemma pico_t0: "t0_of picosecond_view = 8589938886967295 / 2 ^ 33"
proof -
  have "dbl (20000010000000000 * (7737125245533626 / 2 ^ 87))
      = real_of_int 8589938886967295 * 2 powi (19 - 52)"
    by (rule dbl_eval) (simp_all add: power_int_def power_divide)
  then have "dbl (20000010000000000 * (7737125245533626 / 2 ^ 87)) = 8589938886967295 / 2 ^ 33"
    by (simp add: power_int_def power_divide)
  then show ?thesis
    by (simp only: t0_of_def pico_first_major pico_tick_period)
qed

lemma pico_first_division: "first_division_of picosecond_view = 0"
proof -
  have "dbl (20000010000000000 * 4) = 20000010000000000 * 4"
    by (rule dbl_repr [of _ 5000002500000000 56]) (simp_all add: power_int_def power_divide)
  then have "dbl (20000010000000000 * real_of_int MinorTickSubdivision) = 80000040000000000"
    by (simp add: MinorTickSubdivision_def)
  then show ?thesis
    by (simp only: first_division_of_def pico_first_major pico_first_minor)
      (simp add: dbl_0 c_round_def)
qed

lemma pico_increment:
  assumes "0 < d"
  shows "real_of_int d * (1249 / 10 ^ 14)
      \<le> dbl (real_of_int d * minor_tick_period_of picosecond_view)"
    and "dbl (real_of_int d * minor_tick_period_of picosecond_view)
      \<le> real_of_int d * (1251 / 10 ^ 14)"
proof -
  define z where "z = real_of_int d * (7737125245533626 / 2 ^ 89)"
  have d: "0 < real_of_int d" using assms by simp
  then have z: "0 < z" unfolding z_def by simp
  have "real_of_int d * (1249 / 10 ^ 14) \<le> z * (1 - 1 / 2 ^ 53)"
    using d by (simp add: z_def)
  also have "\<dots> \<le> dbl z" by (rule dbl_bounds(1) [OF z])
  finally show "real_of_int d * (1249 / 10 ^ 14)
      \<le> dbl (real_of_int d * minor_tick_period_of picosecond_view)"
    by (simp only: pico_minor z_def)
  have "dbl z \<le> z * (1 + 1 / 2 ^ 53)" by (rule dbl_bounds(2) [OF z])
  also have "\<dots> \<le> real_of_int d * (1251 / 10 ^ 14)"
    using d by (simp add: z_def)
  finally show "dbl (real_of_int d * minor_tick_period_of picosecond_view)
      \<le> real_of_int d * (1251 / 10 ^ 14)"
    by (simp only: pico_minor z_def)
qed

text \<open>
  The first time is the \<open>double\<close> below the offset. The numbers there are \<open>2 ^ - 33\<close>
  apart, and half that distance is more than four minor periods.
\<close>

lemma pico_tick_time:
  assumes "0 \<le> k" "k < 2 ^ 40" "0 < d"
    and "(real_of_int k - 1 / 2) / 2 ^ 33 < real_of_int d * (1249 / 10 ^ 14)"
    and "real_of_int d * (1251 / 10 ^ 14) < (real_of_int k + 1 / 2) / 2 ^ 33"
  shows "tick_time (t0_of picosecond_view) (minor_tick_period_of picosecond_view) d
    = (8589938886967295 + real_of_int k) / 2 ^ 33"
proof -
  define y where "y = dbl (real_of_int d * minor_tick_period_of picosecond_view)"
  note b = pico_increment [OF assms(3), folded y_def]
  have k: "0 \<le> real_of_int k" "real_of_int k < 2 ^ 40"
    using assms(1,2) by simp_all
  have y: "(real_of_int k - 1 / 2) / 2 ^ 33 < y" "y < (real_of_int k + 1 / 2) / 2 ^ 33"
    using assms(4,5) b by linarith+
  have "dbl (8589938886967295 / 2 ^ 33 + y)
      = real_of_int (8589938886967295 + k) * 2 powi (19 - 52)"
    using y k by (intro dbl_eval) (simp_all add: power_int_def field_simps)
  then have "dbl (8589938886967295 / 2 ^ 33 + y) = (8589938886967295 + real_of_int k) / 2 ^ 33"
    by (simp add: power_int_def field_simps)
  then show ?thesis by (simp only: tick_time_def pico_t0 y_def)
qed

lemma pico_tick_time_0:
  "tick_time (t0_of picosecond_view) (minor_tick_period_of picosecond_view) 0
    = 8589938886967295 / 2 ^ 33"
proof -
  have "dbl (8589938886967295 / 2 ^ 33) = 8589938886967295 / 2 ^ 33"
    by (rule dbl_repr [of _ 8589938886967295 19]) (simp_all add: power_int_def power_divide)
  then show ?thesis by (simp add: tick_time_def pico_t0 dbl_0)
qed

lemma pico_divisions:
  fixes j :: int
  defines "t \<equiv> tick_time (t0_of picosecond_view) (minor_tick_period_of picosecond_view)"
  shows "0 \<le> j \<Longrightarrow> j \<le> 4 \<Longrightarrow> t j = 8589938886967295 / 2 ^ 33"
    and "t 5 = 2000001 / 2"
proof -
  show "t j = 8589938886967295 / 2 ^ 33" if "0 \<le> j" "j \<le> 4"
  proof (cases "j = 0")
    case True
    then show ?thesis unfolding t_def by (simp only: pico_tick_time_0)
  next
    case False
    then have j: "1 \<le> real_of_int j" "real_of_int j \<le> 4" using that by simp_all
    have "t j = (8589938886967295 + real_of_int 0) / 2 ^ 33"
      unfolding t_def using that False j by (intro pico_tick_time) simp_all
    then show ?thesis by simp
  qed
  have "t 5 = (8589938886967295 + real_of_int 1) / 2 ^ 33"
    unfolding t_def by (intro pico_tick_time) simp_all
  then show "t 5 = 2000001 / 2" by simp
qed

lemma pico_pixel_first:
  "time_to_pixel picosecond_view (8589938886967295 / 2 ^ 33) = - (97339985 / 2 ^ 21)"
proof -
  have "dbl (1 / 2 ^ 33) = 1 / 2 ^ 33"
    by (rule dbl_repr [of _ "2 ^ 52" "- 33"]) (simp_all add: power_int_def power_divide)
  then have 1: "dbl (- (1 / 2 ^ 33)) = - (1 / 2 ^ 33)" by (simp only: dbl_minus)
  have "dbl (1 / 2 ^ 33 / (4951760157141521 / 2 ^ 92))
      = real_of_int 8192000000000000 * 2 powi (6 - 52)"
    by (rule dbl_eval) (simp_all add: power_int_def power_divide)
  then have "dbl (1 / 2 ^ 33 / (4951760157141521 / 2 ^ 92)) = 244140625 / 2 ^ 21"
    by (simp add: power_int_def power_divide)
  then have "dbl (- (1 / 2 ^ 33 / (4951760157141521 / 2 ^ 92))) = - (244140625 / 2 ^ 21)"
    by (simp only: dbl_minus)
  then have 2: "dbl (- (1 / 2 ^ 33) / (4951760157141521 / 2 ^ 92)) = - (244140625 / 2 ^ 21)"
    by simp
  have "dbl (97339985 / 2 ^ 21) = 97339985 / 2 ^ 21"
    by (rule dbl_repr [of _ "97339985 * 2 ^ 26" 5]) (simp_all add: power_int_def power_divide)
  then have "dbl (- (97339985 / 2 ^ 21)) = - (97339985 / 2 ^ 21)" by (simp only: dbl_minus)
  moreover have "- (244140625 / 2 ^ 21) + 70 = (- (97339985 / 2 ^ 21) :: real)" by simp
  ultimately have 3: "dbl (- (244140625 / 2 ^ 21) + 70) = - (97339985 / 2 ^ 21)" by simp
  have 0: "8589938886967295 / 2 ^ 33 - 2000001 / 2 = (- (1 / 2 ^ 33) :: real)" by simp
  show ?thesis
    by (simp only: time_to_pixel_def pico_offset pico_scale 0 1 2 3 LabelMarginWidth_def
        of_int_numeral)
qed

lemma pico_pixel_offset: "time_to_pixel picosecond_view (2000001 / 2) = 70"
  by (simp add: time_to_pixel_def pico_offset dbl_0 dbl_70 LabelMarginWidth_def)

lemma pico_paint_ruler: "paint_ruler picosecond_view w = ruler_ticks picosecond_view w"
proof -
  have p: "0 \<le> prefix_of picosecond_view" "prefix_of picosecond_view < 9"
    by (rule prefix_range [OF pico_range])+
  then show ?thesis by (simp add: paint_ruler_def Let_def length_SIPrefixes)
qed

text \<open>
  C7 fails at the scale 1e-12 with the offset 1000000.5, in a widget of width 0. The first
  time is the \<open>double\<close> below the offset, and the divisions 0 to 4 all round to it: their
  pixel is about -46.4, left of the width 0, so the painter draws five ticks before the
  division 5 reaches the offset and its pixel, 70, leaves the loop.
\<close>

theorem ticks_in_empty_viewport:
  "0 < scale picosecond_view
   \<and> paint_ruler picosecond_view 0
    = Inr (map (\<lambda>j. draw_tick (- (97339985 / 2 ^ 21)) (8589938886967295 / 2 ^ 33) j
              (order_decimal_of picosecond_view) (prefix_of picosecond_view)) [0..4])
   \<and> map_sum id length (paint_ruler picosecond_view 0) = Inr 5"
proof -
  define t where "t = tick_time (t0_of picosecond_view) (minor_tick_period_of picosecond_view)"
  define x where "x = (\<lambda>j. time_to_pixel picosecond_view (t j))"
  define od where "od = order_decimal_of picosecond_view"
  define p where "p = prefix_of picosecond_view"
  note T = pico_divisions [folded t_def]
  have X: "x j = - (97339985 / 2 ^ 21)" if "0 \<le> j" "j \<le> 4" for j
    unfolding x_def T(1) [OF that] by (rule pico_pixel_first)
  have X5: "x 5 = 70"
    unfolding x_def T(2) by (rule pico_pixel_offset)
  have below: "x j < real_of_int 0" if "0 \<le> j" "j < 5" for j
  proof -
    have "j \<le> 4" using that(2) by simp
    then show ?thesis unfolding X [OF that(1) \<open>j \<le> 4\<close>] by simp
  qed
  have reach: "real_of_int 0 \<le> x 5" unfolding X5 by simp
  have "tick_loop picosecond_view 0 (t0_of picosecond_view)
      (minor_tick_period_of picosecond_view) od p 0
    = Inr (map (\<lambda>j. draw_tick (time_to_pixel picosecond_view
          (tick_time (t0_of picosecond_view) (minor_tick_period_of picosecond_view) j))
          (tick_time (t0_of picosecond_view) (minor_tick_period_of picosecond_view) j) j od p)
        [0..5 - 1])"
    using below reach unfolding x_def t_def
    by (intro tick_loop_run) (simp_all add: INT_MAX_def)
  then have run: "tick_loop picosecond_view 0 (t0_of picosecond_view)
      (minor_tick_period_of picosecond_view) od p 0
    = Inr (map (\<lambda>j. draw_tick (x j) (t j) j od p) [0..4])"
    by (simp add: x_def t_def)
  have a: "map (\<lambda>j. draw_tick (x j) (t j) j od p) [0..4]
      = map (\<lambda>j. draw_tick (- (97339985 / 2 ^ 21)) (8589938886967295 / 2 ^ 33) j od p) [0..4]"
  proof (rule map_cong [OF refl])
    fix j :: int
    assume "j \<in> set [0..4]"
    then have j: "0 \<le> j" "j \<le> 4" by auto
    show "draw_tick (x j) (t j) j od p
        = draw_tick (- (97339985 / 2 ^ 21)) (8589938886967295 / 2 ^ 33) j od p"
      unfolding X [OF j] T(1) [OF j] ..
  qed
  have r: "paint_ruler picosecond_view 0
    = Inr (map (\<lambda>j. draw_tick (- (97339985 / 2 ^ 21)) (8589938886967295 / 2 ^ 33) j
              (order_decimal_of picosecond_view) (prefix_of picosecond_view)) [0..4])"
    unfolding pico_paint_ruler ruler_ticks_def pico_first_division
    unfolding od_def [symmetric] p_def [symmetric] run a ..
  have s: "0 < scale picosecond_view" by (simp add: pico_scale)
  have l: "map_sum id length (paint_ruler picosecond_view 0) = Inr 5"
    unfolding r by simp
  show ?thesis using r s l by (simp only: simp_thms)
qed

end
